theory Spec2Isabelle
  imports Main "HOL-Library.AList" "HOL-Library.Word"
begin

section \<open>The document-to-codebook pipeline of \<^verbatim>\<open>main.py\<close>\<close>

text \<open>
  A Python \<^verbatim>\<open>str\<close> is modelled as a \<^typ>\<open>string\<close>: one \<^typ>\<open>char\<close> stands for one
  code point of the text, so the texts of the model are those whose code points lie
  below 256. The code only ever compares a character with the braces, the newline, the
  backslash and the white space characters, and counts characters when it cuts a name.

  What the code calls and does not define is a parameter of the model: the decoder
  \<^verbatim>\<open>json.loads\<close>, the analysis service behind \<^verbatim>\<open>analyze_document\<close>, and the listing of the
  folder with the text of each document.
\<close>

subsection \<open>Characters the regular expressions mention\<close>

definition newline :: char where
  "newline = CHR 0x0A"

definition backslash :: char where
  "backslash = CHR 0x5C"

definition space :: char where
  "space = CHR 0x20"

definition lbrace :: char where
  "lbrace = CHR 0x7B"

definition rbrace :: char where
  "rbrace = CHR 0x7D"

subsection \<open>Exceptions\<close>

text \<open>
  The exceptions that the code raises itself or that the Python operations it uses raise.
  \<open>JSONDecodeError\<close> is what \<^verbatim>\<open>json.loads\<close> raises (its message and position are left
  out); like the others it is an \<^verbatim>\<open>Exception\<close>, so the \<^verbatim>\<open>except Exception\<close> of \<^verbatim>\<open>main\<close>
  catches it.
\<close>

datatype error =
    ValueError string
  | JSONDecodeError
  | AttributeError
  | TypeError

subsection \<open>\<^verbatim>\<open>clean_json_string\<close>\<close>

text \<open>
  \<^verbatim>\<open>re.sub(r'(?<!\\)\n', ' ', json_str)\<close>: every newline whose preceding character (in the
  subject string) is not a backslash is replaced by one space. The first argument of
  \<open>sub_newline\<close> is the character before the current position, \<open>None\<close> at the start of the
  string, where the negative look-behind succeeds.
\<close>

fun sub_newline :: "char option \<Rightarrow> string \<Rightarrow> string" where
  "sub_newline prev [] = []"
| "sub_newline prev (c # cs) =
     (if c = newline \<and> prev \<noteq> Some backslash then space else c) # sub_newline (Some c) cs"

definition clean_json_string :: "string \<Rightarrow> string" where
  "clean_json_string json_str = sub_newline None json_str"

subsection \<open>\<^verbatim>\<open>extract_json\<close>\<close>

text \<open>
  \<^verbatim>\<open>re.search(r"\{.*\}", text, re.DOTALL)\<close>, as the backtracking matcher runs it.
  \<open>dotall_star_rbrace\<close> matches \<^verbatim>\<open>.*\}\<close> at the start of its argument: the greedy star
  first lets the dot take the next character (any character, under \<^verbatim>\<open>DOTALL\<close>) and
  only when the rest then fails does it stop and try the closing brace here. It returns
  the text matched. \<open>match_here\<close> matches the whole pattern at the start of its argument,
  and \<open>re_search\<close> tries the start positions from left to right.
\<close>

fun dotall_star_rbrace :: "string \<Rightarrow> string option" where
  "dotall_star_rbrace [] = None"
| "dotall_star_rbrace (c # cs) =
     (case dotall_star_rbrace cs of
        Some m \<Rightarrow> Some (c # m)
      | None \<Rightarrow> if c = rbrace then Some [c] else None)"

fun match_here :: "string \<Rightarrow> string option" where
  "match_here [] = None"
| "match_here (c # cs) =
     (if c = lbrace
      then (case dotall_star_rbrace cs of Some m \<Rightarrow> Some (c # m) | None \<Rightarrow> None)
      else None)"

fun re_search :: "string \<Rightarrow> string option" where
  "re_search [] = None"
| "re_search (c # cs) =
     (case match_here (c # cs) of Some m \<Rightarrow> Some m | None \<Rightarrow> re_search cs)"

text \<open>The message of line 46; \<open>CHR 0xE9\<close> is the letter e with an acute accent.\<close>

definition no_json_detected :: error where
  "no_json_detected =
     ValueError (''Aucun JSON d'' @ [CHR 0xE9] @ ''tect'' @ [CHR 0xE9] @ '' dans la r''
       @ [CHR 0xE9] @ ''ponse.'')"

definition extract_json :: "string \<Rightarrow> error + string" where
  "extract_json text =
     (case re_search text of
        Some m \<Rightarrow> Inr m
      | None \<Rightarrow> Inl no_json_detected)"

subsection \<open>Values that \<^verbatim>\<open>json.loads\<close> returns\<close>

text \<open>
  \<^verbatim>\<open>json.loads\<close> returns \<^verbatim>\<open>None\<close>, a \<^verbatim>\<open>bool\<close>, an \<^verbatim>\<open>int\<close>, a \<^verbatim>\<open>float\<close>, a
  \<^verbatim>\<open>str\<close>, a \<^verbatim>\<open>list\<close> or a \<^verbatim>\<open>dict\<close> with string keys. A \<^verbatim>\<open>dict\<close> is the list of its items
  in insertion order. A \<^verbatim>\<open>float\<close> is the 64 bits of its IEEE 754 representation; the code
  never computes with one.
\<close>

datatype json =
    JNull
  | JBool bool
  | JInt int
  | JFloat "64 word"
  | JStr string
  | JArr "json list"
  | JObj "(string \<times> json) list"

text \<open>
  \<^verbatim>\<open>x.get(key, default)\<close>: only a \<^verbatim>\<open>dict\<close> has the method; on every other value the
  attribute look-up raises \<^verbatim>\<open>AttributeError\<close>.
\<close>

fun dict_get :: "json \<Rightarrow> string \<Rightarrow> json \<Rightarrow> error + json" where
  "dict_get (JObj d) key dflt =
     (case map_of d key of Some v \<Rightarrow> Inr v | None \<Rightarrow> Inr dflt)"
| "dict_get _ key dflt = Inl AttributeError"

text \<open>
  \<^verbatim>\<open>iter(x)\<close>, as \<^verbatim>\<open>for\<close> and \<^verbatim>\<open>zip\<close> call it: a \<^verbatim>\<open>list\<close> gives its elements, a
  \<^verbatim>\<open>str\<close> its characters (each a \<^verbatim>\<open>str\<close> of length one), a \<^verbatim>\<open>dict\<close> its keys; the other
  values are not iterable and raise \<^verbatim>\<open>TypeError\<close>.
\<close>

fun py_iter :: "json \<Rightarrow> error + json list" where
  "py_iter (JArr xs) = Inr xs"
| "py_iter (JStr s) = Inr (map (\<lambda>c. JStr [c]) s)"
| "py_iter (JObj d) = Inr (map (\<lambda>kv. JStr (fst kv)) d)"
| "py_iter _ = Inl TypeError"

text \<open>
  \<^verbatim>\<open>zip(a, b)\<close> takes an iterator of each argument, the first one first, and stops with
  the shorter one.
\<close>

definition py_zip :: "json \<Rightarrow> json \<Rightarrow> error + (json \<times> json) list" where
  "py_zip a b =
     (case py_iter a of
        Inl e \<Rightarrow> Inl e
      | Inr xs \<Rightarrow> (case py_iter b of Inl e \<Rightarrow> Inl e | Inr ys \<Rightarrow> Inr (zip xs ys)))"

subsection \<open>The rows of one document (lines 136 to 147 of \<^verbatim>\<open>main\<close>)\<close>

text \<open>One dictionary appended to \<^verbatim>\<open>df_rows\<close>; its cells are whatever the decoder returned.\<close>

record row =
  Theme :: json
  Coding :: json
  Verbatim :: json

text \<open>\<^verbatim>\<open>pd.DataFrame(df_rows)\<close> is the list of its rows.\<close>

type_synonym dataframe = "row list"

text \<open>The body of \<^verbatim>\<open>for theme in ...\<close>, run on the rows collected so far.\<close>

definition theme_body :: "json \<Rightarrow> row list \<Rightarrow> error + row list" where
  "theme_body theme df_rows =
     (case dict_get theme ''theme'' (JStr []) of
        Inl e \<Rightarrow> Inl e
      | Inr th \<Rightarrow>
     (case dict_get theme ''codages'' (JArr []) of
        Inl e \<Rightarrow> Inl e
      | Inr codages \<Rightarrow>
     (case dict_get theme ''verbatims'' (JArr []) of
        Inl e \<Rightarrow> Inl e
      | Inr verbatims \<Rightarrow>
     (case py_zip codages verbatims of
        Inl e \<Rightarrow> Inl e
      | Inr pairs \<Rightarrow>
          Inr (df_rows @
            map (\<lambda>(coding, verbatim). \<lparr>Theme = th, Coding = coding, Verbatim = verbatim\<rparr>)
              pairs)))))"

fun themes_loop :: "json list \<Rightarrow> row list \<Rightarrow> error + row list" where
  "themes_loop [] df_rows = Inr df_rows"
| "themes_loop (theme # themes) df_rows =
     (case theme_body theme df_rows of
        Inl e \<Rightarrow> Inl e
      | Inr df_rows' \<Rightarrow> themes_loop themes df_rows')"

text \<open>\<^verbatim>\<open>df_rows = []\<close>, the loop over \<^verbatim>\<open>data.get('themes', [])\<close>, and the data frame.\<close>

definition build_rows :: "json \<Rightarrow> error + dataframe" where
  "build_rows data =
     (case dict_get data ''themes'' (JArr []) of
        Inl e \<Rightarrow> Inl e
      | Inr v \<Rightarrow> (case py_iter v of Inl e \<Rightarrow> Inl e | Inr themes \<Rightarrow> themes_loop themes []))"

subsection \<open>\<^verbatim>\<open>main\<close>\<close>

text \<open>
  \<^verbatim>\<open>str.isspace\<close> on the code points below 256, and \<^verbatim>\<open>str.strip()\<close>, which removes the
  white space at both ends.
\<close>

definition py_isspace :: "char \<Rightarrow> bool" where
  "py_isspace c =
     (let n = (of_char c :: nat)
      in (9 \<le> n \<and> n \<le> 13) \<or> (28 \<le> n \<and> n \<le> 32) \<or> n = 133 \<or> n = 160)"

definition strip :: "string \<Rightarrow> string" where
  "strip s = rev (dropWhile py_isspace (rev (dropWhile py_isspace s)))"

text \<open>
  One entry of the listing of the folder, with the text that \<^verbatim>\<open>read_docx_file_content\<close>
  returns for its \<^verbatim>\<open>id\<close>.
\<close>

record item =
  name :: string
  content :: string

text \<open>\<^verbatim>\<open>codebook\<close>: a \<^verbatim>\<open>dict\<close> from sheet names to data frames, in insertion order.\<close>

type_synonym codebook = "(string \<times> dataframe) list"

text \<open>
  What \<^verbatim>\<open>main\<close> does to the world, in the order it does it: the lines it prints, the
  calls of \<^verbatim>\<open>analyze_document\<close>, and the workbook that the \<^verbatim>\<open>ExcelWriter\<close> block writes
  (one sheet per entry of the codebook, in the order of \<^verbatim>\<open>codebook.items()\<close>).
\<close>

datatype event =
    Print_reading string
  | Print_empty
  | Call_analyze string
  | Print_parse_error error
  | Print_raw string
  | Print_no_docx
  | Write_excel codebook
  | Print_generated

text \<open>
  How a block of statements ends: it runs to its end (with the value of the variable it
  builds), it executes \<^verbatim>\<open>return\<close>, or an exception leaves it.
\<close>

datatype 'a flow = Normal 'a | Return | Raise error

text \<open>
  The \<^verbatim>\<open>try\<close> block of lines 125 to 128. \<open>loads\<close> stands for \<^verbatim>\<open>json.loads\<close>, which is
  library code: it is a parameter of the model.
\<close>

definition try_block :: "(string \<Rightarrow> error + json) \<Rightarrow> string \<Rightarrow> error + json" where
  "try_block loads analysis =
     (case extract_json analysis of
        Inl e \<Rightarrow> Inl e
      | Inr json_text \<Rightarrow> loads (clean_json_string json_text))"

text \<open>
  The \<^verbatim>\<open>for item in items\<close> loop. \<open>analyze_document\<close> stands for the call of the analysis
  service, taken as a function from the text it is sent to the text it answers; a failure
  of the service or of the download of a document is outside the model. An exception
  raised while the rows are built is outside the \<^verbatim>\<open>try\<close> block and leaves \<^verbatim>\<open>main\<close>.
\<close>

fun for_loop ::
  "(string \<Rightarrow> error + json) \<Rightarrow> (string \<Rightarrow> string) \<Rightarrow> item list \<Rightarrow> codebook \<Rightarrow> event list
     \<Rightarrow> event list \<times> codebook flow" where
  "for_loop loads analyze_document [] codebook log = (log, Normal codebook)"
| "for_loop loads analyze_document (item # items) codebook log =
     (if strip (content item) = []
      then for_loop loads analyze_document items codebook
             (log @ [Print_reading (name item), Print_empty])
      else
        (case try_block loads (analyze_document (content item)) of
           Inl e \<Rightarrow>
             (log @ [Print_reading (name item), Call_analyze (content item),
                     Print_parse_error e, Print_raw (analyze_document (content item))],
              Return)
         | Inr data \<Rightarrow>
             (case build_rows data of
                Inl e \<Rightarrow>
                  (log @ [Print_reading (name item), Call_analyze (content item)], Raise e)
              | Inr df \<Rightarrow>
                  for_loop loads analyze_document items
                    (AList.update (take 31 (name item)) df codebook)
                    (log @ [Print_reading (name item), Call_analyze (content item)]))))"

text \<open>The message of line 104.\<close>

definition folder_id_missing :: error where
  "folder_id_missing =
     ValueError ''L'identifiant du dossier Google Drive est manquant (GDRIVE_FOLDER_ID)''"

text \<open>
  \<^verbatim>\<open>main\<close>, given the value of \<^verbatim>\<open>GDRIVE_FOLDER_ID\<close> in the environment and the listing of
  the folder. The result is what it did and how it ended: it ran to its end, it returned
  early (no document in the folder, or a response that could not be read), or an exception
  left it.
\<close>

definition main ::
  "(string \<Rightarrow> error + json) \<Rightarrow> (string \<Rightarrow> string) \<Rightarrow> string option \<Rightarrow> item list
     \<Rightarrow> event list \<times> unit flow" where
  "main loads analyze_document folder_id items =
     (if folder_id = None \<or> folder_id = Some [] then ([], Raise folder_id_missing)
      else if items = [] then ([Print_no_docx], Return)
      else
        (case for_loop loads analyze_document items [] [] of
           (log, Normal codebook) \<Rightarrow> (log @ [Write_excel codebook, Print_generated], Normal ())
         | (log, Return) \<Rightarrow> (log, Return)
         | (log, Raise e) \<Rightarrow> (log, Raise e)))"

section \<open>What the specification says, as definitions\<close>

subsection \<open>Spans and newlines\<close>

text \<open>
  The index of the first opening brace of a text, the index of its last closing brace, and
  the part of the text from the one to the other, both included.
\<close>

definition first_lbrace :: "string \<Rightarrow> nat" where
  "first_lbrace text = length (takeWhile (\<lambda>c. c \<noteq> lbrace) text)"

definition last_rbrace :: "string \<Rightarrow> nat" where
  "last_rbrace text = length text - Suc (length (takeWhile (\<lambda>c. c \<noteq> rbrace) (rev text)))"

definition first_to_last_span :: "string \<Rightarrow> string" where
  "first_to_last_span text =
     take (Suc (last_rbrace text) - first_lbrace text) (drop (first_lbrace text) text)"

text \<open>Position \<open>i\<close> of \<open>s\<close> holds a newline that no backslash immediately precedes.\<close>

definition unescaped_newline :: "string \<Rightarrow> nat \<Rightarrow> bool" where
  "unescaped_newline s i = (s ! i = newline \<and> \<not> (0 < i \<and> s ! (i - 1) = backslash))"

subsection \<open>The coding payload and its rows\<close>

text \<open>
  A theme block of the specification's coding payload: a name and two sequences of
  strings, which need not have the same length.
\<close>

record theme_block =
  block_theme :: string
  block_codings :: "string list"
  block_verbatims :: "string list"

text \<open>
  The rows that the specification asks for one block: \<open>codings[i]\<close> with \<open>verbatims[i]\<close>
  for \<open>i\<close> from \<open>0\<close> to \<open>min(len(codings), len(verbatims)) - 1\<close>.
\<close>

definition block_rows :: "theme_block \<Rightarrow> row list" where
  "block_rows b =
     map (\<lambda>i. \<lparr>Theme = JStr (block_theme b), Coding = JStr (block_codings b ! i),
               Verbatim = JStr (block_verbatims b ! i)\<rparr>)
       [0..<min (length (block_codings b)) (length (block_verbatims b))]"

text \<open>
  A decoded value holds a payload when it is a \<^verbatim>\<open>dict\<close> whose \<^verbatim>\<open>themes\<close> entry is the list
  of the blocks, each block a \<^verbatim>\<open>dict\<close> with its name under \<^verbatim>\<open>theme\<close> and its sequences
  under \<^verbatim>\<open>codages\<close> and \<^verbatim>\<open>verbatims\<close>. Other keys and the order of the keys are free.
\<close>

fun encodes_block :: "theme_block \<Rightarrow> json \<Rightarrow> bool" where
  "encodes_block b (JObj d) =
     (map_of d ''theme'' = Some (JStr (block_theme b)) \<and>
      map_of d ''codages'' = Some (JArr (map JStr (block_codings b))) \<and>
      map_of d ''verbatims'' = Some (JArr (map JStr (block_verbatims b))))"
| "encodes_block b _ = False"

fun encodes_payload :: "theme_block list \<Rightarrow> json \<Rightarrow> bool" where
  "encodes_payload blocks (JObj d) =
     (case map_of d ''themes'' of
        Some (JArr ts) \<Rightarrow> list_all2 encodes_block blocks ts
      | _ \<Rightarrow> False)"
| "encodes_payload blocks _ = False"






subsection \<open>Runs of the orchestrator\<close>

text \<open>The events that write the workbook, and the calls of the analysis service.\<close>

fun is_write :: "event \<Rightarrow> bool" where
  "is_write (Write_excel cb) = True"
| "is_write _ = False"

fun is_call :: "event \<Rightarrow> bool" where
  "is_call (Call_analyze c) = True"
| "is_call _ = False"

text \<open>
  The table of a document: the rows built from the decoded response of the analysis
  service, when the \<^verbatim>\<open>try\<close> block and the construction of the rows both succeed.
\<close>

definition document_table ::
  "(string \<Rightarrow> error + json) \<Rightarrow> (string \<Rightarrow> string) \<Rightarrow> item \<Rightarrow> dataframe option" where
  "document_table loads analyze_document x =
     (case try_block loads (analyze_document (content x)) of
        Inl e \<Rightarrow> None
      | Inr data \<Rightarrow> (case build_rows data of Inl e \<Rightarrow> None | Inr df \<Rightarrow> Some df))"

text \<open>A document that does not stop the run: it is blank, or it has a table.\<close>

definition item_passes :: "(string \<Rightarrow> error + json) \<Rightarrow> (string \<Rightarrow> string) \<Rightarrow> item \<Rightarrow> bool" where
  "item_passes loads analyze_document x =
     (strip (content x) = [] \<or> document_table loads analyze_document x \<noteq> None)"

text \<open>The documents of a sequence that are not blank and whose sheet identifier is \<open>k\<close>.\<close>

definition docs_for_sheet :: "string \<Rightarrow> item list \<Rightarrow> item list" where
  "docs_for_sheet k items = filter (\<lambda>x. strip (content x) \<noteq> [] \<and> take 31 (name x) = k) items"

section \<open>A decoder and a response to run the examples with\<close>

text \<open>
  The properties below hold for every decoder \<open>loads\<close> and every analysis service. To run
  \<^verbatim>\<open>main\<close> on the examples of the specification, here is a decoder for the JSON texts
  that have no fraction, no exponent and no \<^verbatim>\<open>\u\<close> escape: it reads objects (a repeated
  key keeps its first place and takes its last value, as in a \<^verbatim>\<open>dict\<close>), arrays, strings,
  integers and the three literals, and like \<^verbatim>\<open>json.loads\<close> it rejects a control
  character inside a string, a trailing comma and text after the value. The first
  argument of the three mutually recursive functions bounds the depth of the recursion.
\<close>

definition json_ws :: "char \<Rightarrow> bool" where
  "json_ws c = (c = space \<or> c = newline \<or> c = CHR 0x09 \<or> c = CHR 0x0D)"

definition skip_ws :: "string \<Rightarrow> string" where
  "skip_ws s = dropWhile json_ws s"

definition unescape :: "char \<Rightarrow> char option" where
  "unescape e =
     (if e = CHR 0x22 \<or> e = backslash \<or> e = CHR ''/'' then Some e
      else if e = CHR ''b'' then Some (CHR 0x08)
      else if e = CHR ''f'' then Some (CHR 0x0C)
      else if e = CHR ''n'' then Some newline
      else if e = CHR ''r'' then Some (CHR 0x0D)
      else if e = CHR ''t'' then Some (CHR 0x09)
      else None)"

text \<open>The rest of a string after its opening quote: its characters and what follows it.\<close>

fun scan_string :: "string \<Rightarrow> (string \<times> string) option" where
  "scan_string [] = None"
| "scan_string [c] = (if c = CHR 0x22 then Some ([], []) else None)"
| "scan_string (c # e # r) =
     (if c = CHR 0x22 then Some ([], e # r)
      else if c = backslash then
        (case unescape e of
           None \<Rightarrow> None
         | Some x \<Rightarrow> map_option (\<lambda>(s, t). (x # s, t)) (scan_string r))
      else if (of_char c :: nat) < 32 then None
      else map_option (\<lambda>(s, t). (c # s, t)) (scan_string (e # r)))"

definition is_digit :: "char \<Rightarrow> bool" where
  "is_digit c = (48 \<le> (of_char c :: nat) \<and> (of_char c :: nat) \<le> 57)"

definition digits_value :: "string \<Rightarrow> int" where
  "digits_value ds = foldl (\<lambda>n c. 10 * n + (int (of_char c) - 48)) 0 ds"

definition scan_int :: "string \<Rightarrow> (json \<times> string) option" where
  "scan_int s =
     (let neg = (s \<noteq> [] \<and> hd s = CHR ''-'');
          body = (if neg then tl s else s);
          ds = takeWhile is_digit body;
          rest = dropWhile is_digit body
      in if ds = [] \<or> (length ds > 1 \<and> hd ds = CHR ''0'') then None
         else if rest \<noteq> [] \<and> (hd rest = CHR ''.'' \<or> hd rest = CHR ''e'' \<or> hd rest = CHR ''E'')
         then None
         else Some (JInt (if neg then - digits_value ds else digits_value ds), rest))"

definition scan_literal :: "string \<Rightarrow> (json \<times> string) option" where
  "scan_literal s =
     (if take 4 s = ''true'' then Some (JBool True, drop 4 s)
      else if take 5 s = ''false'' then Some (JBool False, drop 5 s)
      else if take 4 s = ''null'' then Some (JNull, drop 4 s)
      else scan_int s)"

fun decode_value :: "nat \<Rightarrow> string \<Rightarrow> (json \<times> string) option"
  and decode_elements :: "nat \<Rightarrow> string \<Rightarrow> (json list \<times> string) option"
  and decode_members ::
    "nat \<Rightarrow> (string \<times> json) list \<Rightarrow> string \<Rightarrow> ((string \<times> json) list \<times> string) option" where
  "decode_value 0 s = None"
| "decode_value (Suc n) s =
     (case skip_ws s of
        [] \<Rightarrow> None
      | c # r \<Rightarrow>
          if c = CHR 0x22 then map_option (\<lambda>(x, t). (JStr x, t)) (scan_string r)
          else if c = CHR 0x5B then
            (if take 1 (skip_ws r) = [CHR 0x5D] then Some (JArr [], drop 1 (skip_ws r))
             else map_option (\<lambda>(xs, t). (JArr xs, t)) (decode_elements n r))
          else if c = lbrace then
            (if take 1 (skip_ws r) = [rbrace] then Some (JObj [], drop 1 (skip_ws r))
             else map_option (\<lambda>(d, t). (JObj d, t)) (decode_members n [] r))
          else scan_literal (c # r))"
| "decode_elements 0 s = None"
| "decode_elements (Suc n) s =
     (case decode_value n s of
        None \<Rightarrow> None
      | Some (v, t) \<Rightarrow>
          (case skip_ws t of
             [] \<Rightarrow> None
           | c # u \<Rightarrow>
               if c = CHR 0x5D then Some ([v], u)
               else if c = CHR '','' then
                 map_option (\<lambda>(vs, w). (v # vs, w)) (decode_elements n u)
               else None))"
| "decode_members 0 acc s = None"
| "decode_members (Suc n) acc s =
     (case skip_ws s of
        [] \<Rightarrow> None
      | q # r \<Rightarrow>
          if q \<noteq> CHR 0x22 then None
          else
            (case scan_string r of
               None \<Rightarrow> None
             | Some (k, t) \<Rightarrow>
                 (case skip_ws t of
                    [] \<Rightarrow> None
                  | c # u \<Rightarrow>
                      if c \<noteq> CHR '':'' then None
                      else
                        (case decode_value n u of
                           None \<Rightarrow> None
                         | Some (v, w) \<Rightarrow>
                             (case skip_ws w of
                                [] \<Rightarrow> None
                              | c' # x \<Rightarrow>
                                  if c' = rbrace then Some (AList.update k v acc, x)
                                  else if c' = CHR '','' then
                                    decode_members n (AList.update k v acc) x
                                  else None)))))"

definition reference_loads :: "string \<Rightarrow> error + json" where
  "reference_loads s =
     (case decode_value (Suc (length s)) s of
        None \<Rightarrow> Inl JSONDecodeError
      | Some (v, t) \<Rightarrow> if skip_ws t = [] then Inr v else Inl JSONDecodeError)"

text \<open>
  The response of the end-to-end example of the specification: a line of reasoning, the
  JSON text on a line of its own, and a closing line; then the payload that the JSON text
  denotes and the one row expected from it.
\<close>

definition example_json_text :: string where
  "example_json_text =
     ''{\"themes\":[{\"theme\":\"T\",\"codages\":[\"A\"],\"verbatims\":[\"quote one\"]}]}''"

definition example_response :: string where
  "example_response = ''Reasoning...'' @ [newline] @ example_json_text @ [newline] @ ''Done.''"

definition example_payload :: json where
  "example_payload =
     JObj [(''themes'', JArr [JObj [(''theme'', JStr ''T''), (''codages'', JArr [JStr ''A'']),
       (''verbatims'', JArr [JStr ''quote one''])]])]"

definition example_row :: row where
  "example_row = \<lparr>Theme = JStr ''T'', Coding = JStr ''A'', Verbatim = JStr ''quote one''\<rparr>"

text \<open>
  An analysis service for the examples: it answers a document with a payload of one
  theme that quotes the document.
\<close>

definition quoting_service :: "string \<Rightarrow> string" where
  "quoting_service text =
     ''Reasoning...'' @ [newline] @
     ''{\"themes\":[{\"theme\":\"T\",\"codages\":[\"A\"],\"verbatims\":[\"'' @ text @ ''\"]}]}''"

section \<open>Lemmas\<close>

subsection \<open>The regular expression search\<close>

lemma dotall_None_iff: "dotall_star_rbrace s = None \<longleftrightarrow> rbrace \<notin> set s"
  by (induction s) (auto split: option.splits)

lemma dotall_no_rbrace: "rbrace \<notin> set s \<Longrightarrow> dotall_star_rbrace s = None"
  by (simp add: dotall_None_iff)

lemma dotall_last: "rbrace \<notin> set post \<Longrightarrow> dotall_star_rbrace (mid @ rbrace # post) = Some (mid @ [rbrace])"
proof (induction mid)
  case Nil
  then have "dotall_star_rbrace post = None" by (simp add: dotall_None_iff)
  then show ?case by simp
next
  case (Cons c mid)
  then show ?case by simp
qed

lemma re_search_skip: "lbrace \<notin> set pre \<Longrightarrow> re_search (pre @ s) = re_search s"
  by (induction pre) auto

lemma re_search_no_rbrace: "rbrace \<notin> set s \<Longrightarrow> re_search s = None"
  by (induction s) (auto simp: dotall_no_rbrace)

lemma re_search_span:
  assumes "lbrace \<notin> set pre" "rbrace \<notin> set post"
  shows "re_search (pre @ lbrace # mid @ rbrace # post) = Some (lbrace # mid @ [rbrace])"
  using assms by (simp add: re_search_skip dotall_last)

lemma span_decompose:
  assumes "i < j" "j < length text" "text ! i = lbrace" "text ! j = rbrace"
  shows "\<exists>pre mid post. text = pre @ lbrace # mid @ rbrace # post \<and> lbrace \<notin> set pre \<and> rbrace \<notin> set post"
proof -
  have "lbrace \<in> set (take j text)"
    using assms by (metis in_set_conv_nth length_take min.absorb2 nth_take less_imp_le_nat)
  then obtain pre r1 where r1: "take j text = pre @ lbrace # r1" "lbrace \<notin> set pre"
    by (meson split_list_first)
  have "text = take j text @ rbrace # drop (Suc j) text"
    using assms by (metis id_take_nth_drop)
  then have t: "text = pre @ lbrace # (r1 @ rbrace # drop (Suc j) text)"
    using r1 by simp
  have "rbrace \<in> set (r1 @ rbrace # drop (Suc j) text)" by simp
  then obtain mid post where "r1 @ rbrace # drop (Suc j) text = mid @ rbrace # post" "rbrace \<notin> set post"
    by (meson split_list_last)
  with t r1 show ?thesis by metis
qed

lemma re_search_Some_span:
  "re_search text = Some m \<Longrightarrow> \<exists>i j. i < j \<and> j < length text \<and> text ! i = lbrace \<and> text ! j = rbrace"
proof -
  assume a: "re_search text = Some m"
  have "lbrace \<in> set text"
  proof (rule ccontr)
    assume "lbrace \<notin> set text"
    then have "re_search (text @ []) = re_search []" by (rule re_search_skip)
    with a show False by simp
  qed
  then obtain pre rest where s: "text = pre @ lbrace # rest" "lbrace \<notin> set pre"
    by (meson split_list_first)
  have "rbrace \<in> set rest"
  proof (rule ccontr)
    assume n: "rbrace \<notin> set rest"
    have "re_search text = re_search (lbrace # rest)" using s by (simp add: re_search_skip)
    also have "\<dots> = re_search rest" using n by (simp add: dotall_no_rbrace)
    also have "\<dots> = None" using n by (rule re_search_no_rbrace)
    finally show False using a by simp
  qed
  then obtain k where k: "k < length rest" "rest ! k = rbrace" by (meson in_set_conv_nth)
  let ?i = "length pre" and ?j = "length pre + Suc k"
  have "?i < ?j" by simp
  moreover have "?j < length text" using s k by simp
  moreover have "text ! ?i = lbrace" using s by simp
  moreover have "text ! ?j = rbrace" using s k by (simp add: nth_append)
  ultimately show ?thesis by blast
qed

subsection \<open>The span from the first opening to the last closing brace\<close>

lemma takeWhile_neq_append: "c \<notin> set pre \<Longrightarrow> takeWhile (\<lambda>x. x \<noteq> c) (pre @ c # r) = pre"
  by (induction pre) auto

lemma first_lbrace_append: "lbrace \<notin> set pre \<Longrightarrow> first_lbrace (pre @ lbrace # r) = length pre"
  by (simp add: first_lbrace_def takeWhile_neq_append)

lemma last_rbrace_append:
  assumes "rbrace \<notin> set post"
  shows "last_rbrace (xs @ rbrace # post) = length xs"
proof -
  have "rbrace \<notin> set (rev post)" using assms by simp
  then have "takeWhile (\<lambda>x. x \<noteq> rbrace) (rev post @ rbrace # rev xs) = rev post"
    by (rule takeWhile_neq_append)
  then show ?thesis by (simp add: last_rbrace_def)
qed

lemma span_of_decomposition:
  assumes "lbrace \<notin> set pre" "rbrace \<notin> set post"
  shows "first_to_last_span (pre @ lbrace # mid @ rbrace # post) = lbrace # mid @ [rbrace]"
proof -
  have l: "last_rbrace (pre @ lbrace # mid @ rbrace # post) = length pre + Suc (length mid)"
    using last_rbrace_append [OF assms(2), of "pre @ lbrace # mid"] by simp
  show ?thesis
    by (simp add: first_to_last_span_def first_lbrace_append [OF assms(1)] l)
qed

subsection \<open>The substitution of newlines\<close>

lemma sub_newline_length: "length (sub_newline prev s) = length s"
  by (induction s arbitrary: prev) auto

lemma sub_newline_nth:
  "i < length s \<Longrightarrow>
   sub_newline prev s ! i =
     (if s ! i = newline \<and> (if i = 0 then prev else Some (s ! (i - 1))) \<noteq> Some backslash
      then space else s ! i)"
proof (induction s arbitrary: prev i)
  case Nil
  then show ?case by simp
next
  case (Cons c cs)
  show ?case
  proof (cases i)
    case 0
    then show ?thesis by simp
  next
    case (Suc k)
    with Cons.prems have "k < length cs" by simp
    from Cons.IH [OF this, of "Some c"] Suc show ?thesis
      by (cases k) auto
  qed
qed

subsection \<open>The rows of a payload\<close>

lemma zip_rows_nth:
  "map (\<lambda>(coding, verbatim). \<lparr>Theme = th, Coding = coding, Verbatim = verbatim\<rparr>)
     (zip (map JStr cs) (map JStr vs)) =
   map (\<lambda>i. \<lparr>Theme = th, Coding = JStr (cs ! i), Verbatim = JStr (vs ! i)\<rparr>)
     [0..<min (length cs) (length vs)]"
  by (rule nth_equalityI) simp_all

lemma theme_body_encodes:
  "encodes_block b t \<Longrightarrow> theme_body t rows = Inr (rows @ block_rows b)"
  by (cases t) (simp_all add: theme_body_def py_zip_def block_rows_def zip_rows_nth)

lemma themes_loop_encodes:
  "list_all2 encodes_block blocks ts \<Longrightarrow>
   themes_loop ts rows = Inr (rows @ concat (map block_rows blocks))"
proof (induction blocks ts arbitrary: rows rule: list_all2_induct)
  case Nil
  then show ?case by simp
next
  case (Cons b blocks t ts)
  then show ?case by (simp add: theme_body_encodes)
qed

lemma themes_loop_acc:
  "themes_loop themes rows =
     (case themes_loop themes [] of Inl e \<Rightarrow> Inl e | Inr new \<Rightarrow> Inr (rows @ new))"
proof (induction themes arbitrary: rows)
  case Nil
  then show ?case by simp
next
  case (Cons t themes)
  have body: "theme_body t rs = (case theme_body t [] of Inl e \<Rightarrow> Inl e | Inr new \<Rightarrow> Inr (rs @ new))"
    for rs
    by (simp add: theme_body_def split: sum.splits)
  show ?case
  proof (cases "theme_body t []")
    case (Inl e)
    then show ?thesis using body [of rows] by simp
  next
    case (Inr new)
    then have "theme_body t rows = Inr (rows @ new)" using body [of rows] by simp
    with Inr show ?thesis
      using Cons.IH [of "rows @ new"] Cons.IH [of new]
      by (simp split: sum.splits)
  qed
qed











subsection \<open>The loop over the documents\<close>

lemma strip_empty_iff: "strip s = [] \<longleftrightarrow> (\<forall>c\<in>set s. py_isspace c)"
proof
  assume "strip s = []"
  then have all: "\<forall>c\<in>set (dropWhile py_isspace s). py_isspace c"
    by (simp add: strip_def dropWhile_eq_Nil_conv)
  have "dropWhile py_isspace s = []"
  proof (rule ccontr)
    assume ne: "dropWhile py_isspace s \<noteq> []"
    then have "\<not> py_isspace (hd (dropWhile py_isspace s))" by (rule hd_dropWhile)
    moreover have "hd (dropWhile py_isspace s) \<in> set (dropWhile py_isspace s)"
      using ne by simp
    ultimately show False using all by blast
  qed
  then show "\<forall>c\<in>set s. py_isspace c" by (simp add: dropWhile_eq_Nil_conv)
next
  assume "\<forall>c\<in>set s. py_isspace c"
  then have "dropWhile py_isspace s = []" by (simp add: dropWhile_eq_Nil_conv)
  then show "strip s = []" by (simp only: strip_def) simp
qed

lemma for_loop_log:
  "for_loop L A items cb log = (log @ fst (for_loop L A items cb []), snd (for_loop L A items cb []))"
proof (induction items arbitrary: cb log)
  case Nil
  then show ?case by simp
next
  case (Cons x items)
  show ?case
  proof (cases "strip (content x) = []")
    case True
    then show ?thesis
      using Cons.IH [of cb "log @ [Print_reading (name x), Print_empty]"]
        Cons.IH [of cb "[Print_reading (name x), Print_empty]"]
      by simp
  next
    case False
    show ?thesis
    proof (cases "try_block L (A (content x))")
      case (Inl e)
      with False show ?thesis by simp
    next
      case (Inr data)
      show ?thesis
      proof (cases "build_rows data")
        case (Inl e)
        with False Inr show ?thesis by simp
      next
        case df: (Inr df)
        with False Inr show ?thesis
          using Cons.IH [of "AList.update (take 31 (name x)) df cb"
              "log @ [Print_reading (name x), Call_analyze (content x)]"]
            Cons.IH [of "AList.update (take 31 (name x)) df cb"
              "[Print_reading (name x), Call_analyze (content x)]"]
          by simp
      qed
    qed
  qed
qed

lemma for_loop_append:
  "for_loop L A (xs @ ys) cb log =
     (case for_loop L A xs cb log of
        (l, Normal cb') \<Rightarrow> for_loop L A ys cb' l
      | (l, Return) \<Rightarrow> (l, Return)
      | (l, Raise e) \<Rightarrow> (l, Raise e))"
proof (induction xs arbitrary: cb log)
  case Nil
  then show ?case by simp
next
  case (Cons x xs)
  then show ?case by (simp split: sum.splits)
qed

lemma for_loop_calls_nonblank:
  "Call_analyze c \<in> set (fst (for_loop L A items cb log)) \<Longrightarrow>
   Call_analyze c \<in> set log \<or> strip c \<noteq> []"
proof (induction items arbitrary: cb log)
  case Nil
  then show ?case by simp
next
  case (Cons x items)
  show ?case
  proof (cases "strip (content x) = []")
    case True
    with Cons.prems have "Call_analyze c \<in> set (fst (for_loop L A items cb (log @ [Print_reading (name x), Print_empty])))"
      by simp
    from Cons.IH [OF this] show ?thesis by auto
  next
    case False
    show ?thesis
    proof (cases "try_block L (A (content x))")
      case (Inl e)
      with False Cons.prems show ?thesis by auto
    next
      case (Inr data)
      show ?thesis
      proof (cases "build_rows data")
        case (Inl e)
        with False Inr Cons.prems show ?thesis by auto
      next
        case df: (Inr df)
        with False Inr Cons.prems
        have "Call_analyze c \<in> set (fst (for_loop L A items (AList.update (take 31 (name x)) df cb)
              (log @ [Print_reading (name x), Call_analyze (content x)])))"
          by simp
        from Cons.IH [OF this] False show ?thesis by auto
      qed
    qed
  qed
qed

lemma for_loop_no_write:
  "filter is_write (fst (for_loop L A items cb log)) = filter is_write log"
proof (induction items arbitrary: cb log)
  case Nil
  then show ?case by simp
next
  case (Cons x items)
  then show ?case by (simp split: sum.splits)
qed

lemma for_loop_passes:
  "list_all (item_passes L A) items \<Longrightarrow> \<exists>l cb'. for_loop L A items cb log = (l, Normal cb')"
proof (induction items arbitrary: cb log)
  case Nil
  then show ?case by simp
next
  case (Cons x items)
  then show ?case
    by (auto simp: item_passes_def document_table_def split: sum.splits)
qed

lemma for_loop_abort:
  assumes pre: "list_all (item_passes L A) pre"
    and d: "strip (content d) \<noteq> []" "try_block L (A (content d)) = Inl e"
  shows "\<exists>tr. for_loop L A (pre @ d # post) cb log =
           (log @ tr @ [Print_reading (name d), Call_analyze (content d), Print_parse_error e,
              Print_raw (A (content d))], Return) \<and> filter is_write tr = []"
proof -
  from for_loop_passes [OF pre] obtain l cb' where l: "for_loop L A pre cb [] = (l, Normal cb')"
    by blast
  have w: "filter is_write l = []"
    using for_loop_no_write [of L A pre cb "[]"] l by simp
  have "for_loop L A pre cb log = (log @ l, Normal cb')"
    using for_loop_log [of L A pre cb log] l by simp
  then have "for_loop L A (pre @ d # post) cb log =
      (log @ l @ [Print_reading (name d), Call_analyze (content d), Print_parse_error e,
              Print_raw (A (content d))], Return)"
    using d by (simp add: for_loop_append)
  with w show ?thesis by blast
qed

lemma docs_for_sheet_Cons:
  "docs_for_sheet k (x # items) =
     (if strip (content x) \<noteq> [] \<and> take 31 (name x) = k then x # docs_for_sheet k items
      else docs_for_sheet k items)"
  by (simp add: docs_for_sheet_def)

lemma for_loop_lookup:
  "for_loop L A items cb0 log = (l, Normal cb) \<Longrightarrow>
   map_of cb k =
     (if docs_for_sheet k items = [] then map_of cb0 k
      else document_table L A (last (docs_for_sheet k items)))"
proof (induction items arbitrary: cb0 log)
  case Nil
  then show ?case by (simp add: docs_for_sheet_def)
next
  case (Cons x items)
  show ?case
  proof (cases "strip (content x) = []")
    case True
    with Cons.prems have "for_loop L A items cb0 (log @ [Print_reading (name x), Print_empty]) = (l, Normal cb)"
      by simp
    from Cons.IH [OF this] True show ?thesis by (simp add: docs_for_sheet_Cons)
  next
    case False
    from False Cons.prems obtain data df where
      data: "try_block L (A (content x)) = Inr data" and df: "build_rows data = Inr df"
      and rest: "for_loop L A items (AList.update (take 31 (name x)) df cb0)
              (log @ [Print_reading (name x), Call_analyze (content x)]) = (l, Normal cb)"
      by (auto split: sum.splits)
    have tab: "document_table L A x = Some df"
      using data df by (simp add: document_table_def)
    from Cons.IH [OF rest] False tab show ?thesis
      by (auto simp: docs_for_sheet_Cons update_conv')
  qed
qed

lemma for_loop_keys:
  "for_loop L A items cb0 log = (l, Normal cb) \<Longrightarrow>
   fst ` set cb = fst ` set cb0 \<union> (\<lambda>x. take 31 (name x)) ` {x \<in> set items. strip (content x) \<noteq> []}"
proof (induction items arbitrary: cb0 log)
  case Nil
  then show ?case by simp
next
  case (Cons x items)
  show ?case
  proof (cases "strip (content x) = []")
    case True
    with Cons.prems have "for_loop L A items cb0 (log @ [Print_reading (name x), Print_empty]) = (l, Normal cb)"
      by simp
    from Cons.IH [OF this] True show ?thesis by auto
  next
    case False
    from False Cons.prems obtain df where
      rest: "for_loop L A items (AList.update (take 31 (name x)) df cb0)
              (log @ [Print_reading (name x), Call_analyze (content x)]) = (l, Normal cb)"
      by (auto split: sum.splits)
    from Cons.IH [OF rest] False show ?thesis
      by (auto simp: dom_update)
  qed
qed

lemma for_loop_distinct:
  "for_loop L A items cb0 log = (l, Normal cb) \<Longrightarrow> distinct (map fst cb0) \<Longrightarrow>
   distinct (map fst cb)"
proof (induction items arbitrary: cb0 log)
  case Nil
  then show ?case by simp
next
  case (Cons x items)
  show ?case
  proof (cases "strip (content x) = []")
    case True
    with Cons.prems have "for_loop L A items cb0 (log @ [Print_reading (name x), Print_empty]) = (l, Normal cb)"
      by simp
    from Cons.IH [OF this Cons.prems(2)] show ?thesis .
  next
    case False
    from False Cons.prems obtain df where
      rest: "for_loop L A items (AList.update (take 31 (name x)) df cb0)
              (log @ [Print_reading (name x), Call_analyze (content x)]) = (l, Normal cb)"
      by (auto split: sum.splits)
    have "distinct (map fst (AList.update (take 31 (name x)) df cb0))"
      using Cons.prems(2) by (rule distinct_update)
    from Cons.IH [OF rest this] show ?thesis .
  qed
qed

lemma main_written:
  assumes "Write_excel cb \<in> set (fst (main L A fid items))"
  shows "\<exists>l. for_loop L A items [] [] = (l, Normal cb)"
proof -
  obtain l r where lr: "for_loop L A items [] [] = (l, r)" by force
  have nw: "filter is_write l = []"
    using for_loop_no_write [of L A items "[]" "[]"] lr by simp
  have notin: "Write_excel cb \<notin> set l"
  proof
    assume "Write_excel cb \<in> set l"
    then have "Write_excel cb \<in> set (filter is_write l)" by simp
    with nw show False by simp
  qed
  show ?thesis
  proof (cases r)
    case (Normal cb')
    with assms lr notin have "cb' = cb"
      by (auto simp: main_def split: if_splits)
    with lr Normal show ?thesis by simp
  next
    case Return
    with assms lr notin show ?thesis by (auto simp: main_def split: if_splits)
  next
    case (Raise e)
    with assms lr notin show ?thesis by (auto simp: main_def split: if_splits)
  qed
qed

subsection \<open>What \<^verbatim>\<open>extract_json\<close> returns\<close>

lemma span_indices:
  assumes "i < j" "j < length text" "text ! i = lbrace" "text ! j = rbrace"
  shows "text ! first_lbrace text = lbrace \<and> (\<forall>k<first_lbrace text. text ! k \<noteq> lbrace) \<and>
         last_rbrace text < length text \<and> text ! last_rbrace text = rbrace \<and>
         (\<forall>k<length text. last_rbrace text < k \<longrightarrow> text ! k \<noteq> rbrace) \<and>
         first_lbrace text < last_rbrace text"
proof -
  from span_decompose [OF assms] obtain pre mid post where
    t: "text = pre @ lbrace # mid @ rbrace # post" and pre: "lbrace \<notin> set pre"
    and post: "rbrace \<notin> set post" by blast
  have f: "first_lbrace text = length pre"
    unfolding t using pre by (rule first_lbrace_append)
  have l: "last_rbrace text = length pre + Suc (length mid)"
    unfolding t using last_rbrace_append [OF post, of "pre @ lbrace # mid"] by simp
  have "text ! length pre = lbrace" by (simp add: t)
  then have 1: "text ! first_lbrace text = lbrace" by (simp only: f)
  have "\<forall>k<length pre. text ! k \<noteq> lbrace"
    using pre by (auto simp: t nth_append dest: nth_mem)
  then have 2: "\<forall>k<first_lbrace text. text ! k \<noteq> lbrace" by (simp only: f)
  have "length pre + Suc (length mid) < length text" by (simp add: t)
  then have 3: "last_rbrace text < length text" by (simp only: l)
  have "text ! (length pre + Suc (length mid)) = rbrace" by (simp add: t nth_append)
  then have 4: "text ! last_rbrace text = rbrace" by (simp only: l)
  have 5: "\<forall>k<length text. last_rbrace text < k \<longrightarrow> text ! k \<noteq> rbrace"
  proof (intro allI impI)
    fix k assume "k < length text" "last_rbrace text < k"
    then have k: "k < length text" "length pre + Suc (length mid) < k" by (simp_all only: l)
    then have "text ! k = post ! (k - (length pre + Suc (Suc (length mid))))"
      by (auto simp: t nth_append nth_Cons')
    moreover have "k - (length pre + Suc (Suc (length mid))) < length post"
      using k by (simp add: t)
    ultimately show "text ! k \<noteq> rbrace" using post by (metis nth_mem)
  qed
  have 6: "first_lbrace text < last_rbrace text" by (simp add: f l)
  from 1 2 3 4 5 6 show ?thesis by blast
qed

lemma extract_json_span:
  assumes "i < j" "j < length text" "text ! i = lbrace" "text ! j = rbrace"
  shows "extract_json text = Inr (first_to_last_span text)"
proof -
  from span_decompose [OF assms] obtain pre mid post where
    t: "text = pre @ lbrace # mid @ rbrace # post" and pre: "lbrace \<notin> set pre"
    and post: "rbrace \<notin> set post" by blast
  have "re_search text = Some (lbrace # mid @ [rbrace])"
    unfolding t using pre post by (rule re_search_span)
  moreover have "first_to_last_span text = lbrace # mid @ [rbrace]"
    unfolding t using pre post by (rule span_of_decomposition)
  ultimately show ?thesis by (simp add: extract_json_def)
qed

lemma re_search_None_iff:
  "re_search text = None \<longleftrightarrow>
     \<not> (\<exists>i j. i < j \<and> j < length text \<and> text ! i = lbrace \<and> text ! j = rbrace)"
proof
  assume n: "re_search text = None"
  show "\<not> (\<exists>i j. i < j \<and> j < length text \<and> text ! i = lbrace \<and> text ! j = rbrace)"
  proof
    assume "\<exists>i j. i < j \<and> j < length text \<and> text ! i = lbrace \<and> text ! j = rbrace"
    then obtain i j where "i < j" "j < length text" "text ! i = lbrace" "text ! j = rbrace"
      by blast
    from span_decompose [OF this] obtain pre mid post where
      "text = pre @ lbrace # mid @ rbrace # post" "lbrace \<notin> set pre" "rbrace \<notin> set post"
      by blast
    then have "re_search text = Some (lbrace # mid @ [rbrace])"
      by (simp add: re_search_span)
    with n show False by simp
  qed
next
  assume "\<not> (\<exists>i j. i < j \<and> j < length text \<and> text ! i = lbrace \<and> text ! j = rbrace)"
  then show "re_search text = None"
    using re_search_Some_span [of "text"] by (cases "re_search text") auto
qed

lemma no_lbrace_no_span:
  assumes "lbrace \<notin> set text"
  shows "\<not> (\<exists>i j. i < j \<and> j < length text \<and> text ! i = lbrace \<and> text ! j = rbrace)"
proof
  assume "\<exists>i j. i < j \<and> j < length text \<and> text ! i = lbrace \<and> text ! j = rbrace"
  then obtain i j where "i < j" "j < length text" and i: "text ! i = lbrace" by blast
  then have "i < length text" by simp
  then have "text ! i \<in> set text" by (rule nth_mem)
  with i assms show False by simp
qed

lemma extract_json_error_iff:
  "extract_json text = Inl no_json_detected \<longleftrightarrow> re_search text = None"
  by (simp add: extract_json_def split: option.splits)

subsection \<open>The example response\<close>

lemma example_extract: "extract_json example_response = Inr example_json_text"
  by code_simp

lemma example_clean: "clean_json_string example_json_text = example_json_text"
  by code_simp

lemma example_rows: "build_rows example_payload = Inr [example_row]"
  by code_simp

lemma example_decoded: "reference_loads example_json_text = Inr example_payload"
  by code_simp

section \<open>The claims\<close>

subsection \<open>C1: pairing of codings and verbatims\<close>

text \<open>
  C1: when the decoded value holds a coding payload, the rows built are, block after block
  in the order of the themes, the pairs of \<open>codings[i]\<close> and \<open>verbatims[i]\<close> for \<open>i\<close> from
  \<open>0\<close> to the length of the shorter sequence less one, each with the name of its theme; what
  the longer sequence has beyond that is dropped and no exception is raised. The witness
  runs the two examples of the specification: codings \<open>c1, c2, c3\<close> with verbatims
  \<open>v1, v2\<close> give the two rows \<open>(T, c1, v1)\<close> and \<open>(T, c2, v2)\<close>, and a payload without
  themes gives the empty table.
\<close>

theorem build_rows_pairs:
  assumes "encodes_payload blocks data"
  shows "build_rows data = Inr (concat (map block_rows blocks))"
proof (cases data)
  case (JObj d)
  with assms obtain ts where ts: "map_of d ''themes'' = Some (JArr ts)"
    and all: "list_all2 encodes_block blocks ts"
    by (auto split: option.splits json.splits)
  from themes_loop_encodes [OF all, of "[]"] ts JObj show ?thesis
    by (simp add: build_rows_def)
qed (use assms in simp_all)

theorem build_rows_pairs_example:
  "build_rows (JObj [(''themes'', JArr [JObj [(''theme'', JStr ''T''),
       (''codages'', JArr [JStr ''c1'', JStr ''c2'', JStr ''c3'']),
       (''verbatims'', JArr [JStr ''v1'', JStr ''v2''])]])]) =
     Inr [\<lparr>Theme = JStr ''T'', Coding = JStr ''c1'', Verbatim = JStr ''v1''\<rparr>,
          \<lparr>Theme = JStr ''T'', Coding = JStr ''c2'', Verbatim = JStr ''v2''\<rparr>] \<and>
   build_rows (JObj [(''themes'', JArr [])]) = Inr []"
proof -
  let ?b = "\<lparr>block_theme = ''T'', block_codings = [''c1'', ''c2'', ''c3''],
              block_verbatims = [''v1'', ''v2'']\<rparr>"
  let ?d = "JObj [(''themes'', JArr [JObj [(''theme'', JStr ''T''),
       (''codages'', JArr [JStr ''c1'', JStr ''c2'', JStr ''c3'']),
       (''verbatims'', JArr [JStr ''v1'', JStr ''v2''])]])]"
  have "encodes_payload [?b] ?d" by simp
  from build_rows_pairs [OF this] have 1: "build_rows ?d = Inr (concat (map block_rows [?b]))" .
  have 2: "block_rows ?b = [\<lparr>Theme = JStr ''T'', Coding = JStr ''c1'', Verbatim = JStr ''v1''\<rparr>,
          \<lparr>Theme = JStr ''T'', Coding = JStr ''c2'', Verbatim = JStr ''v2''\<rparr>]"
    by (simp add: block_rows_def upt_rec)
  have "encodes_payload [] (JObj [(''themes'', JArr [])])" by simp
  from build_rows_pairs [OF this] have 3: "build_rows (JObj [(''themes'', JArr [])]) = Inr []"
    by simp
  from 1 2 3 show ?thesis by simp
qed

subsection \<open>C2: a malformed response ends the run\<close>

text \<open>
  C2: let the documents before \<open>d\<close> all pass (each is blank or has a table), let \<open>d\<close> not be
  blank, and let the \<^verbatim>\<open>try\<close> block fail on the response to \<open>d\<close>, in the extraction or in
  the decoder. Then \<^verbatim>\<open>main\<close> returns at once: the run is the same whatever documents
  follow \<open>d\<close>, no workbook is written, not even one with the tables of the documents
  before \<open>d\<close>, and the last thing printed is the response as the service gave it. The
  witness is a run of three documents in which the response to the second has a trailing
  comma.
\<close>

theorem malformed_response_aborts:
  assumes "list_all (item_passes loads analyze_document) pre"
    and "strip (content d) \<noteq> []"
    and "try_block loads (analyze_document (content d)) = Inl e"
    and "folder_id \<noteq> None" "folder_id \<noteq> Some []"
  shows "main loads analyze_document folder_id (pre @ d # post) =
           main loads analyze_document folder_id (pre @ [d]) \<and>
         snd (main loads analyze_document folder_id (pre @ d # post)) = Return \<and>
         filter is_write (fst (main loads analyze_document folder_id (pre @ d # post))) = [] \<and>
         (\<exists>tr. fst (main loads analyze_document folder_id (pre @ d # post)) =
            tr @ [Print_reading (name d), Call_analyze (content d), Print_parse_error e,
                  Print_raw (analyze_document (content d))])"
proof -
  let ?tail = "[Print_reading (name d), Call_analyze (content d), Print_parse_error e,
                  Print_raw (analyze_document (content d))]"
  from for_loop_abort [OF assms(1-3), of post "[]" "[]"] obtain tr where
    1: "for_loop loads analyze_document (pre @ d # post) [] [] = (tr @ ?tail, Return)"
    and w: "filter is_write tr = []" by auto
  from for_loop_abort [OF assms(1-3), of "[]" "[]" "[]"] obtain tr' where
    2: "for_loop loads analyze_document (pre @ [d]) [] [] = (tr' @ ?tail, Return)" by auto
  have "fst (for_loop loads analyze_document (pre @ d # post) [] []) =
        fst (for_loop loads analyze_document (pre @ [d]) [] [])"
    using assms(1-3)
    by (simp add: for_loop_append split: prod.splits flow.splits)
  with 1 2 have eq: "tr' = tr" by simp
  have m1: "main loads analyze_document folder_id (pre @ d # post) = (tr @ ?tail, Return)"
    using assms(4,5) 1 by (simp add: main_def)
  have m2: "main loads analyze_document folder_id (pre @ [d]) = (tr @ ?tail, Return)"
    using assms(4,5) 2 eq by (simp add: main_def)
  from m1 m2 w show ?thesis by simp
qed

theorem malformed_response_aborts_witness:
  "main reference_loads
     (\<lambda>t. if t = ''second'' then ''Here: {\"themes\":[],}'' else quoting_service t)
     (Some ''folder'')
     [\<lparr>name = ''Interview 1'', content = ''first''\<rparr>,
      \<lparr>name = ''Interview 2'', content = ''second''\<rparr>,
      \<lparr>name = ''Interview 3'', content = ''third''\<rparr>] =
   ([Print_reading ''Interview 1'', Call_analyze ''first'',
     Print_reading ''Interview 2'', Call_analyze ''second'',
     Print_parse_error JSONDecodeError, Print_raw ''Here: {\"themes\":[],}''], Return)"
proof -
  let ?svc = "\<lambda>t. if t = ''second'' then ''Here: {\"themes\":[],}'' else quoting_service t"
  let ?d1 = "\<lparr>name = ''Interview 1'', content = ''first''\<rparr>"
  let ?d2 = "\<lparr>name = ''Interview 2'', content = ''second''\<rparr>"
  let ?d3 = "\<lparr>name = ''Interview 3'', content = ''third''\<rparr>"
  have 1: "list_all (item_passes reference_loads ?svc) [?d1]" by code_simp
  have 2: "strip (content ?d2) \<noteq> []" by code_simp
  have 3: "try_block reference_loads (?svc (content ?d2)) = Inl JSONDecodeError" by code_simp
  have 4: "Some ''folder'' \<noteq> None" "Some ''folder'' \<noteq> Some []" by simp_all
  from malformed_response_aborts [OF 1 2 3 4, of "[?d3]"]
  have "main reference_loads ?svc (Some ''folder'') [?d1, ?d2, ?d3] =
        main reference_loads ?svc (Some ''folder'') [?d1, ?d2]" by simp
  also have "\<dots> = ([Print_reading ''Interview 1'', Call_analyze ''first'',
     Print_reading ''Interview 2'', Call_analyze ''second'',
     Print_parse_error JSONDecodeError, Print_raw ''Here: {\"themes\":[],}''], Return)"
    by code_simp
  finally show ?thesis .
qed

subsection \<open>C3: the span that \<^verbatim>\<open>extract_json\<close> returns\<close>

text \<open>
  C3: when a text holds an opening brace and, somewhere later, a closing brace, then
  \<open>extract_json\<close> returns the part of the text from its first opening brace to its last
  closing brace, whatever braces lie between them. The witness is the example of the
  specification, the text \<^verbatim>\<open>chatter {"a":1} trailer\<close>, which gives \<^verbatim>\<open>{"a":1}\<close>, and a
  text with two objects and a stray closing brace, which gives everything up to that
  brace.
\<close>

theorem extract_json_first_to_last:
  assumes "i < j" "j < length text" "text ! i = lbrace" "text ! j = rbrace"
  shows "text ! first_lbrace text = lbrace \<and> (\<forall>k<first_lbrace text. text ! k \<noteq> lbrace) \<and>
         last_rbrace text < length text \<and> text ! last_rbrace text = rbrace \<and>
         (\<forall>k<length text. last_rbrace text < k \<longrightarrow> text ! k \<noteq> rbrace) \<and>
         first_lbrace text < last_rbrace text \<and>
         extract_json text = Inr (first_to_last_span text)"
  using span_indices [OF assms] extract_json_span [OF assms] by simp

theorem extract_json_chatter:
  "extract_json ''chatter {\"a\":1} trailer'' = Inr ''{\"a\":1}'' \<and>
   extract_json ''see {x} and {y}, or }{'' = Inr ''{x} and {y}, or }''"
proof -
  let ?t = "''chatter {\"a\":1} trailer''"
  let ?u = "''see {x} and {y}, or }{''"
  have "(8::nat) < 14" "14 < length ?t" "?t ! 8 = lbrace" "?t ! 14 = rbrace"
    by (simp_all add: lbrace_def rbrace_def)
  from extract_json_first_to_last [OF this]
  have "extract_json ?t = Inr (first_to_last_span ?t)" by blast
  also have "first_to_last_span ?t = ''{\"a\":1}''"
    by (simp add: first_to_last_span_def first_lbrace_def last_rbrace_def lbrace_def rbrace_def)
  finally have 1: "extract_json ?t = Inr ''{\"a\":1}''" .
  have "(4::nat) < 6" "6 < length ?u" "?u ! 4 = lbrace" "?u ! 6 = rbrace"
    by (simp_all add: lbrace_def rbrace_def)
  from extract_json_first_to_last [OF this]
  have "extract_json ?u = Inr (first_to_last_span ?u)" by blast
  also have "first_to_last_span ?u = ''{x} and {y}, or }''"
    by (simp add: first_to_last_span_def first_lbrace_def last_rbrace_def lbrace_def rbrace_def)
  finally have 2: "extract_json ?u = Inr ''{x} and {y}, or }''" .
  from 1 2 show ?thesis by simp
qed

subsection \<open>C4: what \<^verbatim>\<open>clean_json_string\<close> replaces\<close>

text \<open>
  C4: \<open>clean_json_string\<close> is a total function from strings to strings that keeps the
  length of its argument; position by position, its result holds a space where the
  argument holds a newline not immediately preceded by a backslash, and the character of
  the argument everywhere else. A character that follows a backslash is kept together
  with its backslash, so an escaped newline stays as it is. A string without an unescaped
  newline is returned unchanged.
\<close>

theorem clean_json_string_pointwise:
  "length (clean_json_string s) = length s \<and>
   (\<forall>i<length s. clean_json_string s ! i = (if unescaped_newline s i then space else s ! i)) \<and>
   (\<forall>i<length s. 0 < i \<and> s ! (i - 1) = backslash \<longrightarrow>
        clean_json_string s ! (i - 1) = backslash \<and> clean_json_string s ! i = s ! i) \<and>
   ((\<forall>i<length s. \<not> unescaped_newline s i) \<longrightarrow> clean_json_string s = s)"
proof -
  have len: "length (clean_json_string s) = length s"
    by (simp add: clean_json_string_def sub_newline_length)
  have nth: "clean_json_string s ! i = (if unescaped_newline s i then space else s ! i)"
    if "i < length s" for i
    using sub_newline_nth [OF that, of None]
    by (auto simp: clean_json_string_def unescaped_newline_def)
  have esc: "clean_json_string s ! (i - 1) = backslash \<and> clean_json_string s ! i = s ! i"
    if "i < length s" "0 < i" "s ! (i - 1) = backslash" for i
  proof -
    have "i - 1 < length s" using that by simp
    from nth [OF this] that have "clean_json_string s ! (i - 1) = backslash"
      by (simp add: unescaped_newline_def backslash_def newline_def)
    moreover from nth [OF that(1)] that have "clean_json_string s ! i = s ! i"
      by (simp add: unescaped_newline_def)
    ultimately show ?thesis by simp
  qed
  have same: "clean_json_string s = s" if "\<forall>i<length s. \<not> unescaped_newline s i"
    using that len nth by (simp add: list_eq_iff_nth_eq)
  from len nth esc same show ?thesis by blast
qed

theorem clean_json_string_pointwise_witness:
  "clean_json_string [CHR ''a'', newline, CHR ''b'', backslash, newline, CHR ''c''] ! 1 = space \<and>
   clean_json_string [CHR ''a'', newline, CHR ''b'', backslash, newline, CHR ''c''] ! 4 = newline \<and>
   clean_json_string (''a'' @ [backslash, newline] @ ''b'') = ''a'' @ [backslash, newline] @ ''b''"
proof -
  let ?s = "[CHR ''a'', newline, CHR ''b'', backslash, newline, CHR ''c'']"
  let ?t = "''a'' @ [backslash, newline] @ ''b''"
  have 1: "clean_json_string ?s ! 1 = space" and 4: "clean_json_string ?s ! 4 = newline"
    using clean_json_string_pointwise [of ?s]
    by (simp_all add: unescaped_newline_def newline_def backslash_def)
  have "\<forall>i<length ?t. \<not> unescaped_newline ?t i"
    by (simp add: unescaped_newline_def newline_def backslash_def less_Suc_eq nth_Cons')
  with clean_json_string_pointwise [of ?t] have "clean_json_string ?t = ?t" by blast
  with 1 4 show ?thesis by simp
qed

subsection \<open>C5: when \<^verbatim>\<open>extract_json\<close> raises\<close>

text \<open>
  C5: \<open>extract_json\<close> raises its \<^verbatim>\<open>ValueError\<close> exactly when the text holds no opening
  brace that a closing brace follows at a later position; it raises no other error; in
  particular it raises on every text without an opening brace.
\<close>

theorem extract_json_fails_iff:
  "(extract_json text = Inl no_json_detected) =
     (\<not> (\<exists>i j. i < j \<and> j < length text \<and> text ! i = lbrace \<and> text ! j = rbrace)) \<and>
   ((\<exists>e. extract_json text = Inl e) = (extract_json text = Inl no_json_detected)) \<and>
   (lbrace \<notin> set text \<longrightarrow> extract_json text = Inl no_json_detected)"
proof -
  have c: "(\<exists>e. extract_json text = Inl e) = (extract_json text = Inl no_json_detected)"
    by (auto simp: extract_json_def split: option.splits)
  have d: "lbrace \<notin> set text \<longrightarrow> extract_json text = Inl no_json_detected"
  proof
    assume "lbrace \<notin> set text"
    then have "re_search (text @ []) = re_search []" by (rule re_search_skip)
    then show "extract_json text = Inl no_json_detected"
      by (simp add: extract_json_error_iff)
  qed
  from c d show ?thesis
    by (simp add: extract_json_error_iff re_search_None_iff)
qed

theorem extract_json_fails_iff_witness:
  "extract_json ''no json here'' = Inl no_json_detected \<and>
   extract_json ''} { '' = Inl no_json_detected \<and>
   extract_json ''{}'' \<noteq> Inl no_json_detected"
proof -
  have 1: "extract_json ''no json here'' = Inl no_json_detected"
    using extract_json_fails_iff [of "''no json here''"] by (simp add: lbrace_def)
  have "\<not> (\<exists>i j. i < j \<and> j < length ''} { '' \<and> ''} { '' ! i = lbrace \<and> ''} { '' ! j = rbrace)"
    by (auto simp: lbrace_def rbrace_def nth_Cons' less_Suc_eq split: if_splits)
  then have 2: "extract_json ''} { '' = Inl no_json_detected"
    using extract_json_fails_iff [of "''} { ''"] by blast
  have "\<exists>i j. i < j \<and> j < length ''{}'' \<and> ''{}'' ! i = lbrace \<and> ''{}'' ! j = rbrace"
    by (rule exI [of _ 0], rule exI [of _ 1]) (simp add: lbrace_def rbrace_def)
  then have 3: "extract_json ''{}'' \<noteq> Inl no_json_detected"
    using extract_json_fails_iff [of "''{}''"] by blast
  from 1 2 3 show ?thesis by simp
qed

subsection \<open>C6: extraction first, then cleaning of the span\<close>

text \<open>
  C6: whatever the decoder, the \<^verbatim>\<open>try\<close> block hands it the cleaned copy of the span that
  runs from the first opening brace to the last closing brace of the response as the
  service gave it; when the response has no such span the decoder is not called and the
  error of \<open>extract_json\<close> leaves the block. For the example response of the
  specification, and a decoder that reads its JSON text as the payload it denotes, the
  block returns that payload and the table of the document is the one row with theme
  \<open>T\<close>, coding \<open>A\<close> and verbatim \<open>quote one\<close>, stored under the sheet identifier of the
  document. The witness runs the loop on this response with the decoder of this theory.
\<close>

theorem extract_before_clean:
  "((\<exists>i j. i < j \<and> j < length analysis \<and> analysis ! i = lbrace \<and> analysis ! j = rbrace) \<longrightarrow>
      try_block loads analysis = loads (clean_json_string (first_to_last_span analysis))) \<and>
   (\<not> (\<exists>i j. i < j \<and> j < length analysis \<and> analysis ! i = lbrace \<and> analysis ! j = rbrace) \<longrightarrow>
      try_block loads analysis = Inl no_json_detected) \<and>
   (loads example_json_text = Inr example_payload \<and> strip (content x) \<noteq> [] \<and>
    analyze_document (content x) = example_response \<longrightarrow>
      try_block loads example_response = Inr example_payload \<and>
      document_table loads analyze_document x = Some [example_row] \<and>
      for_loop loads analyze_document [x] cb log =
        (log @ [Print_reading (name x), Call_analyze (content x)],
         Normal (AList.update (take 31 (name x)) [example_row] cb)))"
proof -
  have 1: "try_block loads analysis = loads (clean_json_string (first_to_last_span analysis))"
    if "\<exists>i j. i < j \<and> j < length analysis \<and> analysis ! i = lbrace \<and> analysis ! j = rbrace"
  proof -
    from that obtain i j where
      "i < j" "j < length analysis" "analysis ! i = lbrace" "analysis ! j = rbrace" by blast
    from extract_json_span [OF this] show ?thesis by (simp add: try_block_def)
  qed
  have 2: "try_block loads analysis = Inl no_json_detected"
    if "\<not> (\<exists>i j. i < j \<and> j < length analysis \<and> analysis ! i = lbrace \<and> analysis ! j = rbrace)"
  proof -
    from that have "re_search analysis = None" by (simp add: re_search_None_iff)
    then show ?thesis by (simp add: try_block_def extract_json_def)
  qed
  have 3: "try_block loads example_response = Inr example_payload \<and>
      document_table loads analyze_document x = Some [example_row] \<and>
      for_loop loads analyze_document [x] cb log =
        (log @ [Print_reading (name x), Call_analyze (content x)],
         Normal (AList.update (take 31 (name x)) [example_row] cb))"
    if l: "loads example_json_text = Inr example_payload" and b: "strip (content x) \<noteq> []"
      and a: "analyze_document (content x) = example_response"
  proof -
    have t: "try_block loads example_response = Inr example_payload"
      using l by (simp add: try_block_def example_extract example_clean)
    then have "document_table loads analyze_document x = Some [example_row]"
      using a by (simp add: document_table_def example_rows)
    moreover have "for_loop loads analyze_document [x] cb log =
        (log @ [Print_reading (name x), Call_analyze (content x)],
         Normal (AList.update (take 31 (name x)) [example_row] cb))"
      using t a b by (simp add: example_rows)
    ultimately show ?thesis using t by simp
  qed
  from 1 2 3 show ?thesis by blast
qed

theorem extract_before_clean_witness:
  "try_block reference_loads example_response =
     reference_loads (clean_json_string (first_to_last_span example_response)) \<and>
   try_block reference_loads ''no json here'' = Inl no_json_detected \<and>
   try_block reference_loads example_response = Inr example_payload \<and>
   document_table reference_loads (\<lambda>t. example_response)
     \<lparr>name = ''Interview 1'', content = ''Bonjour''\<rparr> = Some [example_row] \<and>
   for_loop reference_loads (\<lambda>t. example_response)
     [\<lparr>name = ''Interview 1'', content = ''Bonjour''\<rparr>] [] [] =
     ([Print_reading ''Interview 1'', Call_analyze ''Bonjour''],
      Normal [(''Interview 1'', [example_row])])"
proof -
  let ?x = "\<lparr>name = ''Interview 1'', content = ''Bonjour''\<rparr>"
  have "(13::nat) < 80 \<and> 80 < length example_response \<and> example_response ! 13 = lbrace \<and>
      example_response ! 80 = rbrace"
    by code_simp
  then have span: "\<exists>i j. i < j \<and> j < length example_response \<and>
      example_response ! i = lbrace \<and> example_response ! j = rbrace"
    by blast
  have "lbrace \<notin> set ''no json here''" by (simp add: lbrace_def)
  then have none: "\<not> (\<exists>i j. i < j \<and> j < length ''no json here'' \<and>
      ''no json here'' ! i = lbrace \<and> ''no json here'' ! j = rbrace)"
    by (rule no_lbrace_no_span)
  have b: "strip (content ?x) \<noteq> []" by code_simp
  from extract_before_clean [of example_response reference_loads ?x "\<lambda>t. example_response" "[]" "[]"]
    span
  have 1: "try_block reference_loads example_response =
     reference_loads (clean_json_string (first_to_last_span example_response))"
    by blast
  from extract_before_clean [of "''no json here''" reference_loads] none
  have 2: "try_block reference_loads ''no json here'' = Inl no_json_detected"
    by blast
  from extract_before_clean [of example_response reference_loads ?x "\<lambda>t. example_response" "[]" "[]"]
    example_decoded b
  have 3: "try_block reference_loads example_response = Inr example_payload \<and>
   document_table reference_loads (\<lambda>t. example_response) ?x = Some [example_row] \<and>
   for_loop reference_loads (\<lambda>t. example_response) [?x] [] [] =
     ([Print_reading ''Interview 1'', Call_analyze ''Bonjour''],
      Normal [(''Interview 1'', [example_row])])"
    by (simp del: for_loop.simps)
  from 1 2 3 show ?thesis by blast
qed

subsection \<open>C7: sheet identifiers, and the last document wins\<close>

text \<open>
  C7: let \<^verbatim>\<open>main\<close> write the workbook of a codebook. Then the keys of the codebook are the
  names, cut after 31 characters, of the documents that are not blank; no key is longer
  than 31 characters; no key occurs twice; and under each key stands the table of the
  last document of the sequence that is not blank and whose name is cut to that key. So
  when two documents are cut to the same identifier, the one entry holds the table of the
  later one. The witness is the example of the specification: two documents with the same
  long name.
\<close>

theorem codebook_keys_last_write_wins:
  assumes "Write_excel cb \<in> set (fst (main loads analyze_document folder_id items))"
  shows "fst ` set cb = (\<lambda>x. take 31 (name x)) ` {x \<in> set items. strip (content x) \<noteq> []} \<and>
         (\<forall>k\<in>fst ` set cb. length k \<le> 31) \<and>
         distinct (map fst cb) \<and>
         (\<forall>k. map_of cb k =
            (if docs_for_sheet k items = [] then None
             else document_table loads analyze_document (last (docs_for_sheet k items))))"
proof -
  from main_written [OF assms] obtain l where
    l: "for_loop loads analyze_document items [] [] = (l, Normal cb)" by blast
  have 1: "fst ` set cb = (\<lambda>x. take 31 (name x)) ` {x \<in> set items. strip (content x) \<noteq> []}"
    using for_loop_keys [OF l] by simp
  then have 2: "\<forall>k\<in>fst ` set cb. length k \<le> 31" by auto
  have 3: "distinct (map fst cb)" using for_loop_distinct [OF l] by simp
  have 4: "\<forall>k. map_of cb k =
            (if docs_for_sheet k items = [] then None
             else document_table loads analyze_document (last (docs_for_sheet k items)))"
    using for_loop_lookup [OF l] by simp
  from 1 2 3 4 show ?thesis by blast
qed

theorem codebook_keys_last_write_wins_witness:
  "main reference_loads quoting_service (Some ''folder'')
     [\<lparr>name = ''Interview 1 - a very long title that exceeds thirty one chars'',
       content = ''first''\<rparr>,
      \<lparr>name = ''Interview 1 - a very long title that exceeds thirty one chars'',
       content = ''second''\<rparr>] =
     ([Print_reading ''Interview 1 - a very long title that exceeds thirty one chars'',
       Call_analyze ''first'',
       Print_reading ''Interview 1 - a very long title that exceeds thirty one chars'',
       Call_analyze ''second'',
       Write_excel [(''Interview 1 - a very long title'',
         [\<lparr>Theme = JStr ''T'', Coding = JStr ''A'', Verbatim = JStr ''second''\<rparr>])],
       Print_generated], Normal ()) \<and>
   map_of [(''Interview 1 - a very long title'',
         [\<lparr>Theme = JStr ''T'', Coding = JStr ''A'', Verbatim = JStr ''second''\<rparr>])]
     ''Interview 1 - a very long title'' =
     document_table reference_loads quoting_service
       \<lparr>name = ''Interview 1 - a very long title that exceeds thirty one chars'',
        content = ''second''\<rparr>"
proof -
  let ?n = "''Interview 1 - a very long title that exceeds thirty one chars''"
  let ?items = "[\<lparr>name = ?n, content = ''first''\<rparr>, \<lparr>name = ?n, content = ''second''\<rparr>]"
  let ?cb = "[(''Interview 1 - a very long title'',
         [\<lparr>Theme = JStr ''T'', Coding = JStr ''A'', Verbatim = JStr ''second''\<rparr>])]"
  have run: "main reference_loads quoting_service (Some ''folder'') ?items =
     ([Print_reading ?n, Call_analyze ''first'', Print_reading ?n, Call_analyze ''second'',
       Write_excel ?cb, Print_generated], Normal ())"
    by code_simp
  then have "Write_excel ?cb \<in> set (fst (main reference_loads quoting_service (Some ''folder'') ?items))"
    by simp
  from codebook_keys_last_write_wins [OF this]
  have "map_of ?cb ''Interview 1 - a very long title'' =
     (if docs_for_sheet ''Interview 1 - a very long title'' ?items = [] then None
      else document_table reference_loads quoting_service
             (last (docs_for_sheet ''Interview 1 - a very long title'' ?items)))"
    by blast
  moreover have "docs_for_sheet ''Interview 1 - a very long title'' ?items = ?items"
    by code_simp
  ultimately have "map_of ?cb ''Interview 1 - a very long title'' =
     document_table reference_loads quoting_service \<lparr>name = ?n, content = ''second''\<rparr>"
    by simp
  with run show ?thesis by simp
qed

subsection \<open>C8: a blank document is skipped\<close>

text \<open>
  C8: a document whose text is empty or holds white space only is reported and skipped:
  the loop prints its two lines and goes on with the next document, the codebook
  unchanged. A run over a sequence with the document ends as the run over the sequence
  without it, with the same codebook, and calls the analysis service with the same texts;
  and no run calls the service with the text of the document.
\<close>

theorem blank_document_skipped:
  assumes "\<forall>c\<in>set (content d). py_isspace c"
  shows "for_loop loads analyze_document (d # rest) cb log =
           for_loop loads analyze_document rest cb (log @ [Print_reading (name d), Print_empty]) \<and>
         snd (for_loop loads analyze_document (pre @ d # post) cb log) =
           snd (for_loop loads analyze_document (pre @ post) cb log) \<and>
         filter is_call (fst (for_loop loads analyze_document (pre @ d # post) cb log)) =
           filter is_call (fst (for_loop loads analyze_document (pre @ post) cb log)) \<and>
         Call_analyze (content d) \<notin> set (fst (for_loop loads analyze_document items cb []))"
proof -
  from assms have b: "strip (content d) = []" by (simp add: strip_empty_iff)
  have 1: "for_loop loads analyze_document (d # rest) cb log =
           for_loop loads analyze_document rest cb (log @ [Print_reading (name d), Print_empty])"
    using b by simp
  obtain l r where p: "for_loop loads analyze_document pre cb log = (l, r)" by force
  have 23: "snd (for_loop loads analyze_document (pre @ d # post) cb log) =
           snd (for_loop loads analyze_document (pre @ post) cb log) \<and>
         filter is_call (fst (for_loop loads analyze_document (pre @ d # post) cb log)) =
           filter is_call (fst (for_loop loads analyze_document (pre @ post) cb log))"
  proof (cases r)
    case (Normal cb')
    have "for_loop loads analyze_document post cb' (l @ [Print_reading (name d), Print_empty]) =
        (l @ [Print_reading (name d), Print_empty] @ fst (for_loop loads analyze_document post cb' []),
         snd (for_loop loads analyze_document post cb' []))"
      using for_loop_log [of loads analyze_document post cb' "l @ [Print_reading (name d), Print_empty]"]
      by simp
    moreover have "for_loop loads analyze_document post cb' l =
        (l @ fst (for_loop loads analyze_document post cb' []),
         snd (for_loop loads analyze_document post cb' []))"
      by (rule for_loop_log)
    ultimately show ?thesis using p Normal b by (simp add: for_loop_append)
  qed (use p in \<open>simp_all add: for_loop_append\<close>)
  have 4: "Call_analyze (content d) \<notin> set (fst (for_loop loads analyze_document items cb []))"
    using for_loop_calls_nonblank [of "content d" loads analyze_document items cb "[]"] b by auto
  from 1 23 4 show ?thesis by simp
qed

theorem blank_document_skipped_witness:
  "for_loop reference_loads quoting_service
     [\<lparr>name = ''Empty'', content = [space, newline]\<rparr>, \<lparr>name = ''Interview 2'', content = ''text''\<rparr>]
     [] [] =
   for_loop reference_loads quoting_service [\<lparr>name = ''Interview 2'', content = ''text''\<rparr>]
     [] [Print_reading ''Empty'', Print_empty] \<and>
   snd (for_loop reference_loads quoting_service
     [\<lparr>name = ''Empty'', content = [space, newline]\<rparr>, \<lparr>name = ''Interview 2'', content = ''text''\<rparr>]
     [] []) =
   snd (for_loop reference_loads quoting_service [\<lparr>name = ''Interview 2'', content = ''text''\<rparr>]
     [] []) \<and>
   Call_analyze [space, newline] \<notin> set (fst (for_loop reference_loads quoting_service
     [\<lparr>name = ''Empty'', content = [space, newline]\<rparr>, \<lparr>name = ''Interview 2'', content = ''text''\<rparr>]
     [] []))"
proof -
  let ?d = "\<lparr>name = ''Empty'', content = [space, newline]\<rparr>"
  let ?x = "\<lparr>name = ''Interview 2'', content = ''text''\<rparr>"
  have "\<forall>c\<in>set (content ?d). py_isspace c"
    by (simp add: py_isspace_def space_def newline_def)
  note skipped = blank_document_skipped [OF this, of reference_loads quoting_service "[?x]"
      "[]" "[]" "[]" "[?x]" "[?d, ?x]"]
  from skipped [THEN conjunct1]
  have 1: "for_loop reference_loads quoting_service [?d, ?x] [] [] =
      for_loop reference_loads quoting_service [?x] [] [Print_reading ''Empty'', Print_empty]"
    by (simp only: append_Nil item.select_convs)
  from skipped [THEN conjunct2, THEN conjunct1]
  have 2: "snd (for_loop reference_loads quoting_service [?d, ?x] [] []) =
      snd (for_loop reference_loads quoting_service [?x] [] [])"
    by (simp only: append_Nil)
  from skipped [THEN conjunct2, THEN conjunct2, THEN conjunct2]
  have 3: "Call_analyze [space, newline] \<notin>
      set (fst (for_loop reference_loads quoting_service [?d, ?x] [] []))"
    by (simp del: for_loop.simps)
  from 1 2 3 show ?thesis by blast
qed

subsection \<open>C9: the rows depend on the payload only\<close>

text \<open>
  C9: take two documents, in one run or in two, under any two decoders and services, with
  any codebooks and any output so far. When the \<^verbatim>\<open>try\<close> block yields the same payload for
  both, then both times the same thing happens next: the same exception leaves \<^verbatim>\<open>main\<close>,
  or the same table is stored, each under the identifier of its document. And the rows
  that the loop over the themes adds do not depend on the rows collected before.
\<close>

theorem build_rows_deterministic:
  assumes "strip (content d1) \<noteq> []" "try_block loads1 (analyze1 (content d1)) = Inr data"
    and "strip (content d2) \<noteq> []" "try_block loads2 (analyze2 (content d2)) = Inr data"
  shows "snd (for_loop loads1 analyze1 [d1] cb1 log1) =
           (case build_rows data of
              Inl e \<Rightarrow> Raise e
            | Inr df \<Rightarrow> Normal (AList.update (take 31 (name d1)) df cb1)) \<and>
         snd (for_loop loads2 analyze2 [d2] cb2 log2) =
           (case build_rows data of
              Inl e \<Rightarrow> Raise e
            | Inr df \<Rightarrow> Normal (AList.update (take 31 (name d2)) df cb2)) \<and>
         themes_loop themes rows =
           (case themes_loop themes [] of Inl e \<Rightarrow> Inl e | Inr new \<Rightarrow> Inr (rows @ new))"
  using assms themes_loop_acc [of themes rows] by (simp split: sum.splits)

theorem build_rows_deterministic_witness:
  "snd (for_loop reference_loads (\<lambda>t. example_response)
          [\<lparr>name = ''A'', content = ''x''\<rparr>] [] []) =
     Normal [(''A'', [example_row])] \<and>
   snd (for_loop reference_loads (\<lambda>t. ''Noted. '' @ example_json_text)
          [\<lparr>name = ''B'', content = ''y''\<rparr>] [(''Old'', [])] [Print_empty]) =
     Normal [(''Old'', []), (''B'', [example_row])]"
proof -
  let ?d1 = "\<lparr>name = ''A'', content = ''x''\<rparr>" and ?d2 = "\<lparr>name = ''B'', content = ''y''\<rparr>"
  have 1: "strip (content ?d1) \<noteq> []" and 3: "strip (content ?d2) \<noteq> []" by code_simp+
  have 2: "try_block reference_loads ((\<lambda>t. example_response) (content ?d1)) = Inr example_payload"
    by code_simp
  have 4: "try_block reference_loads ((\<lambda>t. ''Noted. '' @ example_json_text) (content ?d2)) =
      Inr example_payload"
    by code_simp
  from build_rows_deterministic [OF 1 2 3 4, of "[]" "[]" "[(''Old'', [])]" "[Print_empty]"]
  show ?thesis by (simp add: example_rows del: for_loop.simps)
qed

subsection \<open>C10: missing keys take their defaults\<close>




end
